theory Spec2Isabelle
  imports Complex_Main "HOL-Library.Sublist"
begin

section \<open>Artifacts loaded at startup\<close>

text \<open>
  The request code of \<^verbatim>\<open>app.py\<close> reads a fixed set of artifacts. Calls into the
  libraries (the label encoders, the factorisation model) can raise; a raised exception
  is the \<open>Inl\<close> branch of a sum, a returned value the \<open>Inr\<close> branch.
\<close>

datatype py_exception = ValueError | OtherException

text \<open>
  A cell of the product table as \<^verbatim>\<open>r.get(col, "")\<close> yields it (lines 79-82, 87-90):
  the loader stores the value as it is, without \<^verbatim>\<open>str\<close>. It is a string (the text
  of the cell, or the default \<^verbatim>\<open>""\<close> of a column the file does not have), a number,
  or the NaN of a blank cell. Numbers compare by value (a boolean as 1 or 0), and a
  number is never equal to a string. NaN is not equal to itself, so \<^verbatim>\<open>in\<close> finds a
  NaN in a set only when it is the very same object: a NaN carries the identity of its
  object, and two NaN cells are the same exactly when the identities are.
\<close>

datatype cell = Str string | Num rat | NaN nat

text \<open>Truth value of a cell, as in \<^verbatim>\<open>if curr_cat:\<close>.\<close>

definition truthy :: "cell \<Rightarrow> bool" where
  "truthy c = (case c of Str s \<Rightarrow> s \<noteq> '''' | Num q \<Rightarrow> q \<noteq> 0 | NaN k \<Rightarrow> True)"

text \<open>
  Lookup of a cell in a dictionary whose keys are strings (\<^verbatim>\<open>c in d\<close>, \<^verbatim>\<open>d[c]\<close>):
  only a string can be equal to a key.
\<close>

definition str_keyed_get :: "(string \<rightharpoonup> 'v) \<Rightarrow> cell \<Rightarrow> 'v option" where
  "str_keyed_get d c = (case c of Str s \<Rightarrow> d s | Num q \<Rightarrow> None | NaN k \<Rightarrow> None)"

text \<open>
  A metadata dictionary. The entries of \<^verbatim>\<open>prod_meta_index\<close> carry an
  \<^verbatim>\<open>"item_id"\<close> key (a \<^verbatim>\<open>str\<close>), the entries of \<^verbatim>\<open>prod_meta_by_itemid\<close>
  and the default dictionary do not.
\<close>

record meta =
  meta_item_id :: "string option"
  title :: cell
  category_id :: cell
  brand :: cell
  price :: cell

text \<open>
  A label encoder is used through \<^verbatim>\<open>classes_\<close>, \<^verbatim>\<open>transform([x])[0]\<close> and
  \<^verbatim>\<open>inverse_transform([c])[0]\<close>. Its implementation is a library's, so the two
  translations are parameters that either return or raise.
\<close>

record encoder =
  classes :: "string list"
  transform :: "string \<Rightarrow> py_exception + int"
  inverse_transform :: "int \<Rightarrow> py_exception + string"

text \<open>
  \<open>model_recommend art u_idx N\<close> stands for
  \<^verbatim>\<open>[int(x[0]) for x in model.recommend(u_idx, user_item_matrix, N=N)]\<close>.
\<close>

record artifacts =
  model_recommend :: "int \<Rightarrow> int \<Rightarrow> py_exception + int list"
  user_le :: encoder
  item_le :: encoder
  co_view_top :: "string \<rightharpoonup> int list"
  popular_items :: "int list"
  prod_meta_index :: "string \<rightharpoonup> meta"
  prod_meta_by_itemid :: "string \<rightharpoonup> meta"
  cat_rel_map :: "string \<rightharpoonup> string set"

subsection \<open>Python primitives\<close>

text \<open>\<^verbatim>\<open>str(code)\<close> on an integer: its decimal numeral.\<close>

definition digit_char :: "nat \<Rightarrow> char" where
  "digit_char d = ''0123456789'' ! d"

fun str_nat :: "nat \<Rightarrow> string" where
  "str_nat n = (if n < 10 then [digit_char n] else str_nat (n div 10) @ [digit_char (n mod 10)])"

declare str_nat.simps [simp del]

definition py_str :: "int \<Rightarrow> string" where
  "py_str i = (if i < 0 then CHR ''-'' # str_nat (nat (- i)) else str_nat (nat i))"

text \<open>The slice \<^verbatim>\<open>xs[:n]\<close>; a negative \<open>n\<close> counts from the end.\<close>

definition py_take :: "int \<Rightarrow> 'a list \<Rightarrow> 'a list" where
  "py_take n xs = (if 0 \<le> n then take (nat n) xs else take (length xs - nat (- n)) xs)"

text \<open>Sequencing of computations that may raise.\<close>

definition bind_exc :: "'e + 'a \<Rightarrow> ('a \<Rightarrow> 'e + 'b) \<Rightarrow> 'e + 'b" where
  "bind_exc m f = (case m of Inl e \<Rightarrow> Inl e | Inr x \<Rightarrow> f x)"

text \<open>
  The comprehension \<^verbatim>\<open>[item_le.inverse_transform([c])[0] for c in codes]\<close>: the first
  code that the encoder rejects raises out of the comprehension.
\<close>

fun inverse_all :: "encoder \<Rightarrow> int list \<Rightarrow> py_exception + string list" where
  "inverse_all le [] = Inr []"
| "inverse_all le (c # cs) =
     (case inverse_transform le c of
        Inl e \<Rightarrow> Inl e
      | Inr x \<Rightarrow> (case inverse_all le cs of Inl e \<Rightarrow> Inl e | Inr xs \<Rightarrow> Inr (x # xs)))"

subsection \<open>The category-relationship map (lines 94-104)\<close>

text \<open>
  A row of the relationship file maps a column name to the \<^verbatim>\<open>str\<close> of its cell;
  \<^verbatim>\<open>row.get(col, "")\<close> yields the empty string for a column the file does not have.
\<close>

type_synonym row = "string \<rightharpoonup> string"

definition row_get :: "row \<Rightarrow> string \<Rightarrow> string \<Rightarrow> string" where
  "row_get r col d = (case r col of None \<Rightarrow> d | Some v \<Rightarrow> v)"

fun load_cat_rel :: "(string \<rightharpoonup> string set) \<Rightarrow> row list \<Rightarrow> (string \<rightharpoonup> string set)" where
  "load_cat_rel m [] = m"
| "load_cat_rel m (r # rows) =
     (let mc = row_get r ''main_category'' '''';
          rc = row_get r ''related_category'' ''''
      in load_cat_rel (m(mc \<mapsto> insert rc (case m mc of None \<Rightarrow> {} | Some s \<Rightarrow> s))) rows)"

section \<open>Helpers (lines 135-175)\<close>

definition empty_meta :: meta where
  "empty_meta =
     \<lparr>meta_item_id = None, title = Str '''', category_id = Str '''', brand = Str '''',
      price = Str ''''\<rparr>"

text \<open>
  \<^verbatim>\<open>get_meta_by_item_id\<close>: the \<^verbatim>\<open>try\<close> block returns the code-indexed entry when
  there is one; an exception in it is passed over; then the item_id-indexed table is
  read with the all-empty dictionary as default.
\<close>

definition get_meta_by_item_id :: "artifacts \<Rightarrow> string \<Rightarrow> py_exception + meta" where
  "get_meta_by_item_id art it =
     (case bind_exc (transform (item_le art) it)
             (\<lambda>code. Inr (prod_meta_index art (py_str code))) of
        Inr (Some m) \<Rightarrow> Inr m
      | Inr None \<Rightarrow>
          Inr (case prod_meta_by_itemid art it of None \<Rightarrow> empty_meta | Some m \<Rightarrow> m)
      | Inl e \<Rightarrow>
          Inr (case prod_meta_by_itemid art it of None \<Rightarrow> empty_meta | Some m \<Rightarrow> m))"

definition als_recommend :: "artifacts \<Rightarrow> string \<Rightarrow> int \<Rightarrow> py_exception + string list" where
  "als_recommend art user_id N =
     (if user_id \<notin> set (classes (user_le art)) then Inr []
      else
        (case bind_exc (transform (user_le art) user_id) (\<lambda>u_idx.
              bind_exc (model_recommend art u_idx N) (\<lambda>item_codes.
              inverse_all (item_le art) item_codes)) of
           Inr ids \<Rightarrow> Inr ids
         | Inl e \<Rightarrow> Inr []))"

definition co_view_recommend :: "artifacts \<Rightarrow> string \<Rightarrow> int \<Rightarrow> py_exception + string list" where
  "co_view_recommend art it N =
     (case bind_exc (transform (item_le art) it) (\<lambda>code.
           let related_codes =
                 py_take N (case co_view_top art (py_str code) of None \<Rightarrow> [] | Some cs \<Rightarrow> cs)
           in inverse_all (item_le art) related_codes) of
        Inr ids \<Rightarrow> Inr ids
      | Inl e \<Rightarrow> Inr [])"

text \<open>The loop of \<^verbatim>\<open>filter_by_categories\<close>, with \<open>out\<close> the list built so far.\<close>

fun filter_loop ::
  "artifacts \<Rightarrow> cell set \<Rightarrow> string list \<Rightarrow> string list \<Rightarrow> py_exception + string list" where
  "filter_loop art allowed out [] = Inr out"
| "filter_loop art allowed out (it # rest) =
     bind_exc (get_meta_by_item_id art it) (\<lambda>m.
       filter_loop art allowed (if category_id m \<in> allowed then out @ [it] else out) rest)"

text \<open>\<open>None\<close> is Python's \<^verbatim>\<open>None\<close>: no restriction.\<close>

definition filter_by_categories ::
  "artifacts \<Rightarrow> string list \<Rightarrow> cell set option \<Rightarrow> py_exception + string list" where
  "filter_by_categories art candidate_item_ids allowed_categories =
     (case allowed_categories of
        None \<Rightarrow> Inr candidate_item_ids
      | Some allowed \<Rightarrow> filter_loop art allowed [] candidate_item_ids)"

section \<open>The request (lines 205-257)\<close>

text \<open>
  Lines 207-214: the allowed categories of the current item. \<^verbatim>\<open>curr_cat\<close> is the
  cell of the metadata; the keys and the members of \<^verbatim>\<open>cat_rel_map\<close> are strings
  (lines 100-102).
\<close>

definition allowed_categories_of :: "artifacts \<Rightarrow> string \<Rightarrow> py_exception + cell set option" where
  "allowed_categories_of art item_id_input =
     (if item_id_input \<noteq> '''' then
        bind_exc (get_meta_by_item_id art item_id_input) (\<lambda>m.
          let curr_cat = category_id m in
          if truthy curr_cat then
            Inr (Some ({curr_cat} \<union>
                   (case str_keyed_get (cat_rel_map art) curr_cat of
                      None \<Rightarrow> {}
                    | Some rel \<Rightarrow> Str ` rel)))
          else Inr None)
      else Inr None)"

text \<open>Line 219: the popularity candidates; nothing catches an exception here.\<close>

definition popular_candidates :: "artifacts \<Rightarrow> int \<Rightarrow> py_exception + string list" where
  "popular_candidates art N =
     (if popular_items art \<noteq> [] then
        inverse_all (item_le art) (py_take (N * 6) (popular_items art))
      else Inr [])"

text \<open>
  Lines 229-233, the inner loop over one group: append the item unless present, then
  leave the loop once \<open>N\<close> items are there.
\<close>

fun merge_group :: "int \<Rightarrow> string list \<Rightarrow> string list \<Rightarrow> string list" where
  "merge_group N final [] = final"
| "merge_group N final (it # rest) =
     (let final' = (if it \<notin> set final then final @ [it] else final)
      in if N \<le> int (length final') then final' else merge_group N final' rest)"

text \<open>Lines 228-235, the loop over the groups, left once \<open>N\<close> items are there.\<close>

fun merge_groups :: "int \<Rightarrow> string list \<Rightarrow> string list list \<Rightarrow> string list" where
  "merge_groups N final [] = final"
| "merge_groups N final (g # gs) =
     (let final' = merge_group N final g
      in if N \<le> int (length final') then final' else merge_groups N final' gs)"

text \<open>Lines 238-243, the fallback over the unfiltered popularity candidates.\<close>

definition backfill :: "int \<Rightarrow> string list \<Rightarrow> string list \<Rightarrow> string list" where
  "backfill N final pop_cands =
     (if int (length final) < N then merge_group N final pop_cands else final)"

definition merge :: "string list \<Rightarrow> string list \<Rightarrow> string list \<Rightarrow> string list \<Rightarrow> int \<Rightarrow> string list" where
  "merge als_f co_f pop_f pop_cands N =
     backfill N (merge_groups N [] [als_f, co_f, pop_f]) pop_cands"

text \<open>Lines 251-257: the reason written for one item of the final list.\<close>

definition reason :: "string list \<Rightarrow> string list \<Rightarrow> string \<Rightarrow> string" where
  "reason als_f co_f it =
     (if it \<in> set als_f then ''Personalized (ALS)''
      else if it \<in> set co_f then ''Co-view''
      else ''Popular'')"

definition attribution :: "string list \<Rightarrow> string list \<Rightarrow> string list \<Rightarrow> string list" where
  "attribution als_f co_f final = map (reason als_f co_f) final"

text \<open>What one press of the button computes.\<close>

record recommendations =
  out_als_cands :: "string list"
  out_co_cands :: "string list"
  out_pop_cands :: "string list"
  out_als_f :: "string list"
  out_co_f :: "string list"
  out_pop_f :: "string list"
  out_final :: "string list"
  out_reasons :: "string list"

definition get_recommendations ::
  "artifacts \<Rightarrow> string \<Rightarrow> string \<Rightarrow> int \<Rightarrow> py_exception + recommendations" where
  "get_recommendations art user_id_input item_id_input N =
     bind_exc (allowed_categories_of art item_id_input) (\<lambda>allowed_categories.
     bind_exc (als_recommend art user_id_input (N * 4)) (\<lambda>als_cands.
     bind_exc (co_view_recommend art item_id_input (N * 4)) (\<lambda>co_cands.
     bind_exc (popular_candidates art N) (\<lambda>pop_cands.
     bind_exc (filter_by_categories art als_cands allowed_categories) (\<lambda>als_f.
     bind_exc (filter_by_categories art co_cands allowed_categories) (\<lambda>co_f.
     bind_exc (filter_by_categories art pop_cands allowed_categories) (\<lambda>pop_f.
       let final = merge als_f co_f pop_f pop_cands N
       in Inr \<lparr>out_als_cands = als_cands, out_co_cands = co_cands, out_pop_cands = pop_cands,
               out_als_f = als_f, out_co_f = co_f, out_pop_f = pop_f,
               out_final = final, out_reasons = attribution als_f co_f final\<rparr>)))))))"

section \<open>A small catalogue\<close>

text \<open>
  An encoder fitted on a list of identifiers: an identifier is translated to its position,
  a position back to its identifier, and anything else raises \<open>ValueError\<close>.
\<close>

fun class_index :: "string list \<Rightarrow> string \<Rightarrow> nat option" where
  "class_index [] x = None"
| "class_index (c # cs) x = (if c = x then Some 0 else map_option Suc (class_index cs x))"

definition label_encoder :: "string list \<Rightarrow> encoder" where
  "label_encoder cs =
     \<lparr>classes = cs,
      transform = (\<lambda>x. case class_index cs x of None \<Rightarrow> Inl ValueError | Some k \<Rightarrow> Inr (int k)),
      inverse_transform =
        (\<lambda>c. if 0 \<le> c \<and> c < int (length cs) then Inr (cs ! nat c) else Inl ValueError)\<rparr>"

definition entry :: "string option \<Rightarrow> cell \<Rightarrow> meta" where
  "entry i c =
     \<lparr>meta_item_id = i, title = Str ''t'', category_id = c, brand = Str ''b'', price = Num 1\<rparr>"

text \<open>
  Five items \<open>p1\<close> .. \<open>p5\<close> with codes 0 .. 4 and one user. \<open>p1\<close>, \<open>p2\<close> (category
  \<open>c1\<close>) and \<open>p3\<close> (category \<open>c2\<close>) have code-indexed metadata, \<open>p4\<close> (category
  \<open>c3\<close>) only item_id-indexed metadata, \<open>p5\<close> none. Category \<open>c1\<close> is related to
  \<open>c2\<close>.
\<close>

definition demo_art :: artifacts where
  "demo_art =
     \<lparr>model_recommend = (\<lambda>u_idx n. if u_idx = 0 then Inr (py_take n [2, 1]) else Inl OtherException),
      user_le = label_encoder [''u1''],
      item_le = label_encoder [''p1'', ''p2'', ''p3'', ''p4'', ''p5''],
      co_view_top = [''0'' \<mapsto> [1, 3]],
      popular_items = [3, 0, 1, 2, 4],
      prod_meta_index =
        [''0'' \<mapsto> entry (Some ''p1'') (Str ''c1''), ''1'' \<mapsto> entry (Some ''p2'') (Str ''c1''),
         ''2'' \<mapsto> entry (Some ''p3'') (Str ''c2'')],
      prod_meta_by_itemid = [''p4'' \<mapsto> entry None (Str ''c3'')],
      cat_rel_map =
        load_cat_rel Map.empty [[''main_category'' \<mapsto> ''c1'', ''related_category'' \<mapsto> ''c2'']]\<rparr>"

text \<open>
  The same catalogue where the model, the co-view table and the popularity list all name
  code 9, which the item encoder (codes 0 .. 4) does not know.
\<close>

definition stale_codes_art :: artifacts where
  "stale_codes_art =
     demo_art\<lparr>model_recommend := (\<lambda>u_idx n. Inr [9]),
              co_view_top := [''0'' \<mapsto> [9]],
              popular_items := [9]\<rparr>"

text \<open>The same catalogue with a relationship file that has no \<^verbatim>\<open>related_category\<close> column.\<close>

definition one_column_art :: artifacts where
  "one_column_art =
     demo_art\<lparr>cat_rel_map := load_cat_rel Map.empty [[''main_category'' \<mapsto> ''c1'']]\<rparr>"

text \<open>
  The same catalogue with a popularity list of \<open>6 * N + 1\<close> codes whose first \<open>6 * N\<close>
  are all the code of \<open>p1\<close>.
\<close>

definition repeating_popular_art :: "int \<Rightarrow> artifacts" where
  "repeating_popular_art N = demo_art\<lparr>popular_items := replicate (nat (6 * N)) 0 @ [1]\<rparr>"

text \<open>
  A catalogue whose categories are not all strings: \<open>n1\<close> has the number 10, \<open>n2\<close> a
  blank cell, \<open>n3\<close> the number 0, \<open>n4\<close> the number 10 again and \<open>n5\<close> another blank
  cell; the relationship file relates \<open>10\<close> to \<open>20\<close>.
\<close>

definition numeric_art :: artifacts where
  "numeric_art =
     demo_art\<lparr>prod_meta_by_itemid :=
                [''n1'' \<mapsto> entry None (Num 10), ''n2'' \<mapsto> entry None (NaN 0),
                 ''n3'' \<mapsto> entry None (Num 0), ''n4'' \<mapsto> entry None (Num 10),
                 ''n5'' \<mapsto> entry None (NaN 1)],
              cat_rel_map :=
                load_cat_rel Map.empty
                  [[''main_category'' \<mapsto> ''10'', ''related_category'' \<mapsto> ''20'']]\<rparr>"

section \<open>Properties of the merge\<close>

text \<open>
  One pass of the inner loop only appends to the list it is given, and what it appends
  comes from the group.
\<close>


lemma merge_group_subset: "set (merge_group N final g) \<subseteq> set final \<union> set g"
proof (induction g arbitrary: final)
  case Nil
  show ?case by simp
next
  case (Cons it rest)
  let ?f = "if it \<notin> set final then final @ [it] else final"
  have "set (merge_group N ?f rest) \<subseteq> set ?f \<union> set rest" by (rule Cons.IH)
  moreover have "set ?f \<subseteq> insert it (set final)" by auto
  ultimately have "set (merge_group N ?f rest) \<subseteq> set final \<union> set (it # rest)" by auto
  moreover have "set ?f \<subseteq> set final \<union> set (it # rest)" by auto
  ultimately show ?case by (simp add: Let_def)
qed

lemma merge_group_prefix: "\<exists>ys. merge_group N final g = final @ ys"
proof (induction g arbitrary: final)
  case Nil
  show ?case by simp
next
  case (Cons it rest)
  let ?f = "if it \<notin> set final then final @ [it] else final"
  obtain zs where z: "?f = final @ zs" by (cases "it \<in> set final") auto
  obtain ys where "merge_group N ?f rest = ?f @ ys" using Cons.IH by blast
  then have "merge_group N ?f rest = final @ (zs @ ys)" using z by simp
  then show ?case using z by (auto simp: Let_def)
qed

lemma merge_group_inv:
  "distinct final \<Longrightarrow> int (length final) < N \<Longrightarrow>
   distinct (merge_group N final g) \<and> int (length (merge_group N final g)) \<le> N \<and>
   (int (length (merge_group N final g)) < N \<longrightarrow> set (merge_group N final g) = set final \<union> set g)"
proof (induction g arbitrary: final)
  case Nil
  then show ?case by simp
next
  case (Cons it rest)
  let ?f = "if it \<notin> set final then final @ [it] else final"
  have d: "distinct ?f" using Cons.prems by simp
  have s: "set ?f = insert it (set final)" by auto
  show ?case
  proof (cases "N \<le> int (length ?f)")
    case True
    then have "merge_group N final (it # rest) = ?f" by (simp add: Let_def)
    moreover have "int (length ?f) \<le> N" using Cons.prems by simp
    ultimately show ?thesis using d True by simp
  next
    case False
    then have e: "merge_group N final (it # rest) = merge_group N ?f rest" by (simp add: Let_def)
    have "int (length ?f) < N" using False by simp
    from Cons.IH[OF d this] show ?thesis unfolding e s by auto
  qed
qed

lemma merge_groups_subset: "set (merge_groups N final gs) \<subseteq> set final \<union> \<Union> (set ` set gs)"
proof (induction gs arbitrary: final)
  case Nil
  show ?case by simp
next
  case (Cons g gs)
  let ?f = "merge_group N final g"
  have a: "set ?f \<subseteq> set final \<union> set g" by (rule merge_group_subset)
  have "set (merge_groups N ?f gs) \<subseteq> set ?f \<union> \<Union> (set ` set gs)" by (rule Cons.IH)
  with a have "set (merge_groups N ?f gs) \<subseteq> set final \<union> \<Union> (set ` set (g # gs))" by auto
  moreover from a have "set ?f \<subseteq> set final \<union> \<Union> (set ` set (g # gs))" by auto
  ultimately show ?case by (simp add: Let_def)
qed

lemma merge_groups_inv:
  "distinct final \<Longrightarrow> int (length final) < N \<Longrightarrow>
   distinct (merge_groups N final gs) \<and> int (length (merge_groups N final gs)) \<le> N \<and>
   (int (length (merge_groups N final gs)) < N \<longrightarrow>
      set (merge_groups N final gs) = set final \<union> \<Union> (set ` set gs))"
proof (induction gs arbitrary: final)
  case Nil
  then show ?case by simp
next
  case (Cons g gs)
  let ?f = "merge_group N final g"
  from merge_group_inv[OF Cons.prems, of g]
  have d: "distinct ?f" and l: "int (length ?f) \<le> N"
    and s: "int (length ?f) < N \<longrightarrow> set ?f = set final \<union> set g" by auto
  show ?case
  proof (cases "N \<le> int (length ?f)")
    case True
    then have "merge_groups N final (g # gs) = ?f" by (simp add: Let_def)
    then show ?thesis using d l True by simp
  next
    case False
    then have e: "merge_groups N final (g # gs) = merge_groups N ?f gs" by (simp add: Let_def)
    have lt: "int (length ?f) < N" using False by simp
    with s have s': "set ?f = set final \<union> set g" by simp
    from Cons.IH[OF d lt] show ?thesis unfolding e s' by auto
  qed
qed

lemma merge_inv:
  assumes "1 \<le> N"
  shows "distinct (merge als_f co_f pop_f pop_cands N)"
    and "int (length (merge als_f co_f pop_f pop_cands N)) \<le> N"
    and "int (length (merge als_f co_f pop_f pop_cands N)) < N \<Longrightarrow>
         set (merge als_f co_f pop_f pop_cands N) = set als_f \<union> set co_f \<union> set pop_f \<union> set pop_cands"
proof -
  let ?R = "merge_groups N [] [als_f, co_f, pop_f]"
  let ?M = "merge als_f co_f pop_f pop_cands N"
  have "distinct ([]::string list)" "int (length ([]::string list)) < N" using assms by simp_all
  from merge_groups_inv[OF this, of "[als_f, co_f, pop_f]"]
  have d: "distinct ?R" and l: "int (length ?R) \<le> N"
    and s: "int (length ?R) < N \<longrightarrow> set ?R = set als_f \<union> set co_f \<union> set pop_f" by auto
  have all: "distinct ?M \<and> int (length ?M) \<le> N \<and> (int (length ?M) < N \<longrightarrow>
         set ?M = set als_f \<union> set co_f \<union> set pop_f \<union> set pop_cands)"
  proof (cases "int (length ?R) < N")
    case True
    then have e: "?M = merge_group N ?R pop_cands" by (simp add: merge_def backfill_def)
    from True s have s': "set ?R = set als_f \<union> set co_f \<union> set pop_f" by simp
    from merge_group_inv[OF d True, of pop_cands] show ?thesis unfolding e s' by auto
  next
    case False
    then have e: "?M = ?R" by (simp add: merge_def backfill_def)
    show ?thesis unfolding e using d l False by simp
  qed
  from all show "distinct ?M" by simp
  from all show "int (length ?M) \<le> N" by simp
  from all show "int (length ?M) < N \<Longrightarrow> set ?M = set als_f \<union> set co_f \<union> set pop_f \<union> set pop_cands" by simp
qed

lemma merge_subset:
  "set (merge als_f co_f pop_f pop_cands N) \<subseteq> set als_f \<union> set co_f \<union> set pop_f \<union> set pop_cands"
proof -
  let ?R = "merge_groups N [] [als_f, co_f, pop_f]"
  have r: "set ?R \<subseteq> set als_f \<union> set co_f \<union> set pop_f"
    using merge_groups_subset[of N "[]" "[als_f, co_f, pop_f]"] by auto
  have "set (merge_group N ?R pop_cands) \<subseteq> set ?R \<union> set pop_cands" by (rule merge_group_subset)
  with r show ?thesis by (auto simp: merge_def backfill_def)
qed

lemma merge_groups_prefix: "\<exists>ys. merge_groups N final gs = final @ ys"
proof (induction gs arbitrary: final)
  case Nil
  show ?case by simp
next
  case (Cons g gs)
  let ?f = "merge_group N final g"
  obtain zs where z: "?f = final @ zs" using merge_group_prefix by blast
  obtain ys where "merge_groups N ?f gs = ?f @ ys" using Cons.IH by blast
  then have "merge_groups N ?f gs = final @ (zs @ ys)" using z by simp
  then show ?case using z by (auto simp: Let_def)
qed

lemma merge_first_group:
  "\<exists>ys. merge als_f co_f pop_f pop_cands N = merge_group N [] als_f @ ys"
proof -
  let ?R1 = "merge_group N [] als_f"
  let ?R = "merge_groups N [] [als_f, co_f, pop_f]"
  have "?R = ?R1 \<or> ?R = merge_groups N ?R1 [co_f, pop_f]" by (simp add: Let_def)
  then obtain zs where z: "?R = ?R1 @ zs" using merge_groups_prefix[of N ?R1 "[co_f, pop_f]"] by auto
  obtain ys where "merge_group N ?R pop_cands = ?R @ ys" using merge_group_prefix by blast
  then have "merge_group N ?R pop_cands = ?R1 @ (zs @ ys)" using z by simp
  then show ?thesis using z by (auto simp: merge_def backfill_def)
qed

lemma merge_first_group_full:
  assumes "N \<le> int (length (merge_group N [] als_f))"
  shows "merge als_f co_f pop_f pop_cands N = merge_group N [] als_f"
  using assms by (simp add: merge_def backfill_def Let_def)

section \<open>Properties of the helpers and of the request\<close>

lemma get_meta_Inr: "get_meta_by_item_id art it = Inr (projr (get_meta_by_item_id art it))"
  by (simp add: get_meta_by_item_id_def bind_exc_def split: sum.splits option.splits)

lemma filter_loop_eq:
  "filter_loop art allowed out cands =
     Inr (out @ filter (\<lambda>it. category_id (projr (get_meta_by_item_id art it)) \<in> allowed) cands)"
proof (induction cands arbitrary: out)
  case Nil
  show ?case by simp
next
  case (Cons it rest)
  obtain m where m: "get_meta_by_item_id art it = Inr m"
    using get_meta_Inr by blast
  have "filter_loop art allowed out (it # rest) =
          filter_loop art allowed (if category_id m \<in> allowed then out @ [it] else out) rest"
    by (simp add: m bind_exc_def)
  then show ?case by (simp add: Cons.IH m)
qed

lemma filter_by_categories_subset:
  "filter_by_categories art cands a = Inr out \<Longrightarrow> set out \<subseteq> set cands"
  by (cases a) (auto simp: filter_by_categories_def filter_loop_eq)

lemma inverse_all_length: "inverse_all le cs = Inr xs \<Longrightarrow> length xs = length cs"
  by (induction cs arbitrary: xs) (auto split: sum.splits)

lemma py_take_length: "0 \<le> n \<Longrightarrow> int (length (py_take n xs)) \<le> n"
  by (simp add: py_take_def)

lemma py_take_nonneg: "0 \<le> n \<Longrightarrow> py_take n xs = take (nat n) xs"
  by (simp add: py_take_def)

lemma co_view_recommend_length:
  assumes "0 \<le> n" and "co_view_recommend art it n = Inr ids"
  shows "int (length ids) \<le> n"
proof (cases "transform (item_le art) it")
  case (Inl e)
  with assms(2) show ?thesis using assms(1) by (auto simp: co_view_recommend_def bind_exc_def)
next
  case (Inr code)
  let ?cs = "py_take n (case co_view_top art (py_str code) of None \<Rightarrow> [] | Some cs \<Rightarrow> cs)"
  show ?thesis
  proof (cases "inverse_all (item_le art) ?cs")
    case (Inl e)
    with Inr assms show ?thesis by (auto simp: co_view_recommend_def bind_exc_def)
  next
    case r: (Inr xs)
    with Inr assms(2) have "ids = xs" by (simp add: co_view_recommend_def bind_exc_def)
    with inverse_all_length[OF r] py_take_length[OF assms(1), of "case co_view_top art (py_str code) of None \<Rightarrow> [] | Some cs \<Rightarrow> cs"]
    show ?thesis by simp
  qed
qed

lemma als_recommend_length:
  assumes "0 \<le> n"
    and "\<forall>u k cs. 0 \<le> k \<longrightarrow> model_recommend art u k = Inr cs \<longrightarrow> int (length cs) \<le> k"
    and "als_recommend art user n = Inr ids"
  shows "int (length ids) \<le> n"
proof (cases "ids = []")
  case True
  with assms(1) show ?thesis by simp
next
  case False
  with assms(3) obtain u_idx item_codes where
    "model_recommend art u_idx n = Inr item_codes" "inverse_all (item_le art) item_codes = Inr ids"
    by (auto simp: als_recommend_def bind_exc_def split: if_splits sum.splits)
  with assms(1,2) inverse_all_length show ?thesis by fastforce
qed

lemma popular_candidates_eq:
  "0 \<le> N \<Longrightarrow> popular_candidates art N = inverse_all (item_le art) (take (nat (6 * N)) (popular_items art))"
  by (simp add: popular_candidates_def py_take_def mult.commute)

lemma get_recommendations_Inr:
  assumes "get_recommendations art user_id_input item_id_input N = Inr r"
  shows "\<exists>allowed_categories.
           allowed_categories_of art item_id_input = Inr allowed_categories \<and>
           als_recommend art user_id_input (N * 4) = Inr (out_als_cands r) \<and>
           co_view_recommend art item_id_input (N * 4) = Inr (out_co_cands r) \<and>
           popular_candidates art N = Inr (out_pop_cands r) \<and>
           filter_by_categories art (out_als_cands r) allowed_categories = Inr (out_als_f r) \<and>
           filter_by_categories art (out_co_cands r) allowed_categories = Inr (out_co_f r) \<and>
           filter_by_categories art (out_pop_cands r) allowed_categories = Inr (out_pop_f r) \<and>
           out_final r = merge (out_als_f r) (out_co_f r) (out_pop_f r) (out_pop_cands r) N \<and>
           out_reasons r = attribution (out_als_f r) (out_co_f r) (out_final r)"
  using assms
  by (auto simp: get_recommendations_def bind_exc_def Let_def split: sum.splits)

lemma filter_by_categories_member:
  "filter_by_categories art cands (Some allowed) = Inr out \<Longrightarrow> it \<in> set out \<Longrightarrow>
   category_id (projr (get_meta_by_item_id art it)) \<in> allowed"
  by (auto simp: filter_by_categories_def filter_loop_eq)

lemma final_subset_pools:
  assumes "get_recommendations art user_id_input item_id_input N = Inr r"
  shows "set (out_final r) \<subseteq> set (out_als_cands r) \<union> set (out_co_cands r) \<union> set (out_pop_cands r)"
proof -
  from get_recommendations_Inr[OF assms] obtain a where
    f: "filter_by_categories art (out_als_cands r) a = Inr (out_als_f r)"
       "filter_by_categories art (out_co_cands r) a = Inr (out_co_f r)"
       "filter_by_categories art (out_pop_cands r) a = Inr (out_pop_f r)"
    and m: "out_final r = merge (out_als_f r) (out_co_f r) (out_pop_f r) (out_pop_cands r) N"
    by blast
  have "set (out_final r) \<subseteq> set (out_als_f r) \<union> set (out_co_f r) \<union> set (out_pop_f r) \<union> set (out_pop_cands r)"
    unfolding m by (rule merge_subset)
  with f[THEN filter_by_categories_subset] show ?thesis by blast
qed

text \<open>
  When the unfiltered popularity candidates are distinct and at least \<open>N\<close>, the
  backfill always reaches \<open>N\<close>.
\<close>

lemma merge_full:
  assumes "1 \<le> N" and "distinct pop_cands" and "N \<le> int (length pop_cands)"
  shows "int (length (merge als_f co_f pop_f pop_cands N)) = N"
proof (rule ccontr)
  let ?M = "merge als_f co_f pop_f pop_cands N"
  assume "int (length ?M) \<noteq> N"
  with merge_inv(2)[OF assms(1), of als_f co_f pop_f pop_cands] have lt: "int (length ?M) < N"
    by simp
  then have "set pop_cands \<subseteq> set ?M" using merge_inv(3)[OF assms(1) lt] by simp
  then have "card (set pop_cands) \<le> card (set ?M)" by (rule card_mono[rotated]) simp
  moreover have "card (set pop_cands) = length pop_cands" using assms(2) by (rule distinct_card)
  moreover have "card (set ?M) = length ?M"
    using merge_inv(1)[OF assms(1)] by (rule distinct_card)
  ultimately show False using lt assms(3) by simp
qed

text \<open>
  The length of the final list in terms of the lists it is built from, and what a short
  final list says about the popularity candidates.
\<close>

lemma merge_length_pools:
  assumes "1 \<le> N" and "set pop_f \<subseteq> set pop_cands"
  shows "int (length (merge als_f co_f pop_f pop_cands N)) =
           min N (int (card (set als_f \<union> set co_f \<union> set pop_cands)))"
proof -
  let ?M = "merge als_f co_f pop_f pop_cands N"
  let ?U = "set als_f \<union> set co_f \<union> set pop_cands"
  have u: "set als_f \<union> set co_f \<union> set pop_f \<union> set pop_cands = ?U" using assms(2) by auto
  have c: "card (set ?M) = length ?M" using merge_inv(1)[OF assms(1)] by (rule distinct_card)
  show ?thesis
  proof (cases "int (length ?M) < N")
    case True
    from merge_inv(3)[OF assms(1) True] u have "set ?M = ?U" by simp
    with c have "card ?U = length ?M" by simp
    with True show ?thesis by simp
  next
    case False
    with merge_inv(2)[OF assms(1), of als_f co_f pop_f pop_cands] have e: "int (length ?M) = N" by simp
    have "set ?M \<subseteq> ?U" using merge_subset[of als_f co_f pop_f pop_cands N] u by simp
    then have "card (set ?M) \<le> card ?U" by (rule card_mono[rotated]) simp
    with c e show ?thesis by simp
  qed
qed

lemma merge_nonempty:
  assumes "1 \<le> N" and "pop_cands \<noteq> []"
  shows "merge als_f co_f pop_f pop_cands N \<noteq> []"
proof
  let ?M = "merge als_f co_f pop_f pop_cands N"
  assume e: "?M = []"
  then have "int (length ?M) < N" using assms(1) by simp
  from merge_inv(3)[OF assms(1) this] e have "set pop_cands = {}" by simp
  with assms(2) show False by simp
qed

lemma pop_pool_length:
  assumes "0 \<le> N" and "get_recommendations art user_id_input item_id_input N = Inr r"
  shows "length (out_pop_cands r) = min (nat (6 * N)) (length (popular_items art))"
proof -
  from get_recommendations_Inr[OF assms(2)]
  have "popular_candidates art N = Inr (out_pop_cands r)" by blast
  with popular_candidates_eq[OF assms(1)]
  have "inverse_all (item_le art) (take (nat (6 * N)) (popular_items art)) = Inr (out_pop_cands r)"
    by simp
  from inverse_all_length[OF this] show ?thesis by simp
qed

lemma short_needs_repeats:
  assumes "1 \<le> N" and "get_recommendations art user_id_input item_id_input N = Inr r"
    and "int (length (out_final r)) < N" and "6 * N < int (length (popular_items art))"
  shows "2 \<le> N \<and> \<not> distinct (out_pop_cands r)"
proof -
  have n: "0 \<le> N" using assms(1) by simp
  from get_recommendations_Inr[OF assms(2)]
  have m: "out_final r = merge (out_als_f r) (out_co_f r) (out_pop_f r) (out_pop_cands r) N"
    by blast
  have l: "length (out_pop_cands r) = nat (6 * N)"
    using pop_pool_length[OF n assms(2)] assms(4) by simp
  then have ge: "N \<le> int (length (out_pop_cands r))" using assms(1) by simp
  have ne: "out_pop_cands r \<noteq> []" using l assms(1) by auto
  have "out_final r \<noteq> []" unfolding m by (rule merge_nonempty[OF assms(1) ne])
  then have "1 \<le> int (length (out_final r))" by (cases "out_final r") simp_all
  with assms(3) have two: "2 \<le> N" by simp
  have "\<not> distinct (out_pop_cands r)"
  proof
    assume "distinct (out_pop_cands r)"
    from merge_full[OF assms(1) this ge, of "out_als_f r" "out_co_f r" "out_pop_f r"] m assms(3)
    show False by simp
  qed
  with two show ?thesis by simp
qed

text \<open>
  The anonymous request without a current item on the popularity list that repeats one
  code: every candidate is \<open>p1\<close>.
\<close>

lemma inverse_all_replicate:
  "inverse_transform le c = Inr x \<Longrightarrow> inverse_all le (replicate k c) = Inr (replicate k x)"
  by (induction k) simp_all

lemma repeating_request:
  assumes "1 \<le> N"
  shows "get_recommendations (repeating_popular_art N) '''' '''' N =
     Inr \<lparr>out_als_cands = [], out_co_cands = [],
          out_pop_cands = replicate (nat (6 * N)) ''p1'',
          out_als_f = [], out_co_f = [],
          out_pop_f = replicate (nat (6 * N)) ''p1'',
          out_final = merge [] [] (replicate (nat (6 * N)) ''p1'') (replicate (nat (6 * N)) ''p1'') N,
          out_reasons = attribution [] []
            (merge [] [] (replicate (nat (6 * N)) ''p1'') (replicate (nat (6 * N)) ''p1'') N)\<rparr>"
proof -
  let ?art = "repeating_popular_art N"
  have a: "allowed_categories_of ?art '''' = Inr None" by (simp add: allowed_categories_of_def)
  have u: "als_recommend ?art '''' (N * 4) = Inr []"
    by (simp add: als_recommend_def repeating_popular_art_def demo_art_def label_encoder_def)
  have c: "co_view_recommend ?art '''' (N * 4) = Inr []"
    by (simp add: co_view_recommend_def repeating_popular_art_def demo_art_def label_encoder_def
        bind_exc_def)
  have i: "inverse_transform (item_le ?art) 0 = Inr ''p1''"
    by (simp add: repeating_popular_art_def demo_art_def label_encoder_def)
  have "popular_candidates ?art N =
          inverse_all (item_le ?art) (take (nat (6 * N)) (popular_items ?art))"
    using assms by (intro popular_candidates_eq) simp
  also have "take (nat (6 * N)) (popular_items ?art) = replicate (nat (6 * N)) 0"
    by (simp add: repeating_popular_art_def)
  also have "inverse_all (item_le ?art) (replicate (nat (6 * N)) 0) = Inr (replicate (nat (6 * N)) ''p1'')"
    by (rule inverse_all_replicate[OF i])
  finally have p: "popular_candidates ?art N = Inr (replicate (nat (6 * N)) ''p1'')" .
  show ?thesis
    by (simp add: get_recommendations_def bind_exc_def a u c p filter_by_categories_def Let_def)
qed

lemma repeating_request_short:
  assumes "2 \<le> N"
  shows "\<exists>r. get_recommendations (repeating_popular_art N) '''' '''' N = Inr r \<and>
             int (length (out_final r)) < N \<and>
             6 * N < int (length (popular_items (repeating_popular_art N))) \<and>
             1 \<in> set (drop (nat (6 * N)) (popular_items (repeating_popular_art N))) \<and>
             inverse_transform (item_le (repeating_popular_art N)) 1 = Inr ''p2'' \<and>
             ''p2'' \<notin> set (out_final r)"
proof -
  let ?P = "replicate (nat (6 * N)) ''p1''"
  let ?M = "merge [] [] ?P ?P N"
  have n: "1 \<le> N" using assms by simp
  have s: "set ?M \<subseteq> {''p1''}" using merge_subset[of "[]" "[]" ?P ?P N] by auto
  have "card (set ?M) \<le> card {''p1''}" using s by (rule card_mono[rotated]) simp
  moreover have "card (set ?M) = length ?M" using merge_inv(1)[OF n] by (rule distinct_card)
  ultimately have l: "int (length ?M) < N" using assms by simp
  have p2: "''p2'' \<notin> set ?M" using s by auto
  have len: "6 * N < int (length (popular_items (repeating_popular_art N)))"
    using n by (simp add: repeating_popular_art_def)
  have d: "1 \<in> set (drop (nat (6 * N)) (popular_items (repeating_popular_art N)))"
    by (simp add: repeating_popular_art_def)
  have i: "inverse_transform (item_le (repeating_popular_art N)) 1 = Inr ''p2''"
    by (simp add: repeating_popular_art_def demo_art_def label_encoder_def)
  show ?thesis using repeating_request[OF n] l p2 len d i by simp
qed

text \<open>
  Categories that are not strings: a number is not a key of the relationship map, so it
  gets no related categories; a blank cell is true and restricts to itself; the number 0
  is false and gives no restriction; the filter keeps numbers by value and a NaN by
  identity.
\<close>

lemma cells_of_the_catalogue:
  "allowed_categories_of numeric_art ''n1'' = Inr (Some {Num 10})"
  "allowed_categories_of numeric_art ''n2'' = Inr (Some {NaN 0})"
  "allowed_categories_of numeric_art ''n3'' = Inr None"
  "filter_by_categories numeric_art [''n1'', ''n2'', ''n3'', ''n4'', ''n5'', ''p1''] (Some {Num 10})
     = Inr [''n1'', ''n4'']"
  "filter_by_categories numeric_art [''n1'', ''n2'', ''n3'', ''n4'', ''n5'', ''p1''] (Some {NaN 0})
     = Inr [''n2'']"
  by code_simp+

section \<open>The claims\<close>

text \<open>
  The requested count \<open>N\<close> is the value of the slider of line 202, an integer from 1
  to 20; the statements about the merge below are for \<open>1 \<le> N\<close>.
\<close>

text \<open>
  C1: for every requested count \<open>N\<close> and every four candidate lists (personalized
  filtered, co-view filtered, popularity filtered, popularity unfiltered), the merged
  result has \<open>min N d\<close> items, where \<open>d\<close> is the number of distinct item ids in the
  four lists together; and with the three filtered groups empty, the unfiltered
  popularity list \<open>[p1, p2]\<close> and \<open>N = 5\<close> the result is \<open>[p1, p2]\<close>.
\<close>

theorem merge_length:
  assumes "1 \<le> N"
  shows "int (length (merge als_f co_f pop_f pop_cands N)) =
           min N (int (card (set als_f \<union> set co_f \<union> set pop_f \<union> set pop_cands)))
         \<and> merge [] [] [] [''p1'', ''p2''] 5 = [''p1'', ''p2'']"
proof
  let ?M = "merge als_f co_f pop_f pop_cands N"
  let ?U = "set als_f \<union> set co_f \<union> set pop_f \<union> set pop_cands"
  have d: "distinct ?M" by (rule merge_inv(1)[OF assms])
  have c: "card (set ?M) = length ?M" using d by (rule distinct_card)
  show "int (length ?M) = min N (int (card ?U))"
  proof (cases "int (length ?M) < N")
    case True
    then have "set ?M = ?U" by (rule merge_inv(3)[OF assms])
    with c have "card ?U = length ?M" by simp
    with True show ?thesis by simp
  next
    case False
    with merge_inv(2)[OF assms, of als_f co_f pop_f pop_cands] have e: "int (length ?M) = N" by simp
    have "card (set ?M) \<le> card ?U" by (rule card_mono) (simp_all add: merge_subset)
    with c e show ?thesis by simp
  qed
  show "merge [] [] [] [''p1'', ''p2''] 5 = [''p1'', ''p2'']"
    by (simp add: merge_def backfill_def)
qed

text \<open>The scenario of section 8 of the specification, with \<open>N = 4\<close>.\<close>

theorem merge_length_witness:
  "(1::int) \<le> 4 \<and>
   int (length (merge [''p3'', ''p7''] [''p7'', ''p9''] [''p9'', ''p1'']
                  [''p1'', ''p2'', ''p3'', ''p4'', ''p5''] 4)) =
     min 4 (int (card (set [''p3'', ''p7''] \<union> set [''p7'', ''p9''] \<union> set [''p9'', ''p1'']
                        \<union> set [''p1'', ''p2'', ''p3'', ''p4'', ''p5''])))"
proof -
  have h: "(1::int) \<le> 4" by simp
  show ?thesis
    using h merge_length [OF h, of "[''p3'', ''p7'']" "[''p7'', ''p9'']" "[''p9'', ''p1'']"
                            "[''p1'', ''p2'', ''p3'', ''p4'', ''p5'']"]
    by simp
qed

text \<open>
  C2: for every requested count \<open>N\<close> and every four candidate lists, the merged
  result, after the backfill pass, has no item id twice and at most \<open>N\<close> items.
\<close>

theorem merge_distinct_bounded:
  assumes "1 \<le> N"
  shows "distinct (merge als_f co_f pop_f pop_cands N) \<and>
         int (length (merge als_f co_f pop_f pop_cands N)) \<le> N"
  using merge_inv(1)[OF assms] merge_inv(2)[OF assms] by simp

text \<open>Overlapping groups, with \<open>N = 2\<close>.\<close>

theorem merge_distinct_bounded_witness:
  "(1::int) \<le> 2 \<and>
   distinct (merge [''p3'', ''p7''] [''p7'', ''p9''] [''p9'', ''p1''] [''p1'', ''p2'', ''p3''] 2) \<and>
   int (length (merge [''p3'', ''p7''] [''p7'', ''p9''] [''p9'', ''p1''] [''p1'', ''p2'', ''p3''] 2)) \<le> 2"
proof -
  have h: "(1::int) \<le> 2" by simp
  show ?thesis
    using h merge_distinct_bounded [OF h, of "[''p3'', ''p7'']" "[''p7'', ''p9'']" "[''p9'', ''p1'']"
                            "[''p1'', ''p2'', ''p3'']"]
    by simp
qed

text \<open>
  C3: when \<open>a\<close> is in the personalized filtered list and not in the co-view filtered
  list, \<open>b\<close> is in the co-view filtered list and not in the personalized filtered list,
  and both are in the merged result, every position of \<open>a\<close> in the result is before
  every position of \<open>b\<close>.
\<close>

theorem merge_priority:
  assumes a: "a \<in> set als_f" "a \<notin> set co_f"
    and b: "b \<in> set co_f" "b \<notin> set als_f"
    and i: "i < length (merge als_f co_f pop_f pop_cands N)"
           "merge als_f co_f pop_f pop_cands N ! i = a"
    and j: "j < length (merge als_f co_f pop_f pop_cands N)"
           "merge als_f co_f pop_f pop_cands N ! j = b"
  shows "i < j"
proof -
  let ?M = "merge als_f co_f pop_f pop_cands N"
  let ?R1 = "merge_group N [] als_f"
  have sub: "set ?R1 \<subseteq> set als_f" using merge_group_subset[of N "[]" als_f] by simp
  have bM: "b \<in> set ?M" using j by (metis nth_mem)
  have lt: "int (length ?R1) < N"
  proof (rule ccontr)
    assume "\<not> int (length ?R1) < N"
    then have "?M = ?R1" by (simp add: merge_first_group_full)
    with bM sub b(2) show False by auto
  qed
  then have N: "1 \<le> N" by simp
  have "distinct ([]::string list)" "int (length ([]::string list)) < N" using N by simp_all
  from merge_group_inv[OF this, of als_f] lt have s: "set ?R1 = set als_f" by simp
  obtain ys where M: "?M = ?R1 @ ys" using merge_first_group by blast
  have d: "distinct (?R1 @ ys)" using merge_inv(1)[OF N, of als_f co_f pop_f pop_cands] M by simp
  have jge: "length ?R1 \<le> j"
  proof (rule ccontr)
    assume "\<not> length ?R1 \<le> j"
    then have "j < length ?R1" by simp
    then have "?M ! j \<in> set ?R1" unfolding M by (simp add: nth_append)
    with j(2) s b(2) show False by simp
  qed
  have ilt: "i < length ?R1"
  proof (rule ccontr)
    assume n: "\<not> i < length ?R1"
    have "i < length (?R1 @ ys)" using i(1) M by simp
    with n have "i - length ?R1 < length ys" by simp
    then have "ys ! (i - length ?R1) \<in> set ys" by (rule nth_mem)
    moreover have "?M ! i = ys ! (i - length ?R1)" unfolding M using n by (simp add: nth_append)
    ultimately have "a \<in> set ys" using i(2) by simp
    moreover have "a \<in> set ?R1" using s a(1) by simp
    ultimately show False using d by auto
  qed
  from ilt jge show ?thesis by simp
qed

text \<open>The scenario of section 8: \<open>p3\<close> at position 0, \<open>p9\<close> at position 2.\<close>

theorem merge_priority_witness:
  "''p3'' \<in> set [''p3'', ''p7''] \<and> ''p3'' \<notin> set [''p7'', ''p9''] \<and>
   ''p9'' \<in> set [''p7'', ''p9''] \<and> ''p9'' \<notin> set [''p3'', ''p7''] \<and>
   merge [''p3'', ''p7''] [''p7'', ''p9''] [''p9'', ''p1''] [''p1'', ''p2'', ''p3'', ''p4'', ''p5''] 4 ! 0 = ''p3'' \<and>
   merge [''p3'', ''p7''] [''p7'', ''p9''] [''p9'', ''p1''] [''p1'', ''p2'', ''p3'', ''p4'', ''p5''] 4 ! 2 = ''p9'' \<and>
   (0::nat) < 2"
proof -
  let ?M = "merge [''p3'', ''p7''] [''p7'', ''p9''] [''p9'', ''p1''] [''p1'', ''p2'', ''p3'', ''p4'', ''p5''] 4"
  have e: "?M = [''p3'', ''p7'', ''p9'', ''p1'']" by (simp add: merge_def backfill_def)
  have h1: "''p3'' \<in> set [''p3'', ''p7'']" "''p3'' \<notin> set [''p7'', ''p9'']" by simp_all
  have h2: "''p9'' \<in> set [''p7'', ''p9'']" "''p9'' \<notin> set [''p3'', ''p7'']" by simp_all
  have i: "0 < length ?M" "?M ! 0 = ''p3''" unfolding e by simp_all
  have j: "2 < length ?M" "?M ! 2 = ''p9''" unfolding e by simp_all
  have "(0::nat) < 2" by (rule merge_priority [OF h1 h2 i j])
  with h1 h2 i j show ?thesis by simp
qed

text \<open>
  C4: an exception raised inside any of the three candidate generators is caught there
  and turned into an empty candidate list, the popularity generator's translation of
  codes to item ids included. \<^verbatim>\<open>als_recommend\<close> and \<^verbatim>\<open>co_view_recommend\<close>
  do so; the comprehension of line 219 has no handler. With a code that the item
  encoder does not know in all three sources, the first two generators return the
  empty list, the popularity candidates raise \<open>ValueError\<close>, and so does the request.
\<close>

theorem popularity_exception_escapes:
  "als_recommend stale_codes_art ''u1'' 4 = Inr [] \<and>
   co_view_recommend stale_codes_art ''p1'' 4 = Inr [] \<and>
   popular_candidates stale_codes_art 1 = Inl ValueError \<and>
   get_recommendations stale_codes_art ''u1'' ''p1'' 1 = Inl ValueError"
  by code_simp

text \<open>
  C5: with no restriction (\<^verbatim>\<open>allowed_categories = None\<close>) the category filter
  returns the candidate list itself.
\<close>

theorem filter_no_restriction:
  "filter_by_categories art candidate_item_ids None = Inr candidate_item_ids"
  by (simp add: filter_by_categories_def)

text \<open>
  C6: with a set of allowed categories, the category filter returns exactly the
  candidates whose resolved \<^verbatim>\<open>category_id\<close> is in the set, in the order of the
  input: the loop computes the list filter, a subsequence of the candidates.
\<close>

theorem filter_stable_subsequence:
  "\<exists>out. filter_by_categories art candidate_item_ids (Some allowed) = Inr out \<and>
         out = filter (\<lambda>it. category_id (projr (get_meta_by_item_id art it)) \<in> allowed)
                 candidate_item_ids \<and>
         subseq out candidate_item_ids"
  by (simp add: filter_by_categories_def filter_loop_eq)

text \<open>
  C7: \<^verbatim>\<open>get_meta_by_item_id\<close> returns for every item id. It returns the
  code-indexed entry when the encoder knows the id and the entry exists; when the
  encoder raises or the code has no entry it reads the item_id-indexed table; when that
  has no entry either, the result has all fields empty.
\<close>

theorem get_meta_never_raises:
  "(\<exists>m. get_meta_by_item_id art it = Inr m) \<and>
   (transform (item_le art) it = Inr code \<and> prod_meta_index art (py_str code) = Some mc \<longrightarrow>
      get_meta_by_item_id art it = Inr mc) \<and>
   ((\<exists>e. transform (item_le art) it = Inl e) \<or>
    (\<exists>c. transform (item_le art) it = Inr c \<and> prod_meta_index art (py_str c) = None) \<longrightarrow>
      (prod_meta_by_itemid art it = Some mi \<longrightarrow> get_meta_by_item_id art it = Inr mi) \<and>
      (prod_meta_by_itemid art it = None \<longrightarrow>
         get_meta_by_item_id art it =
           Inr \<lparr>meta_item_id = None, title = Str '''', category_id = Str '''', brand = Str '''',
                price = Str ''''\<rparr>))"
  by (auto simp: get_meta_by_item_id_def bind_exc_def empty_meta_def split: sum.splits option.splits)

text \<open>
  An id the encoder does not know (\<open>zz\<close>), an id with no metadata in either table
  (\<open>p5\<close>), an id with item_id-indexed metadata only (\<open>p4\<close>) and an id with code-indexed
  metadata (\<open>p2\<close>).
\<close>

theorem get_meta_never_raises_witness:
  "get_meta_by_item_id demo_art ''zz'' =
     Inr \<lparr>meta_item_id = None, title = Str '''', category_id = Str '''', brand = Str '''',
          price = Str ''''\<rparr> \<and>
   get_meta_by_item_id demo_art ''p5'' =
     Inr \<lparr>meta_item_id = None, title = Str '''', category_id = Str '''', brand = Str '''',
          price = Str ''''\<rparr> \<and>
   get_meta_by_item_id demo_art ''p4'' = Inr (entry None (Str ''c3'')) \<and>
   get_meta_by_item_id demo_art ''p2'' = Inr (entry (Some ''p2'') (Str ''c1''))"
proof -
  have zz: "transform (item_le demo_art) ''zz'' = Inl ValueError"
    "prod_meta_by_itemid demo_art ''zz'' = None" by code_simp+
  have p5: "transform (item_le demo_art) ''p5'' = Inr 4"
    "prod_meta_index demo_art (py_str 4) = None"
    "prod_meta_by_itemid demo_art ''p5'' = None" by code_simp+
  have p4: "transform (item_le demo_art) ''p4'' = Inr 3"
    "prod_meta_index demo_art (py_str 3) = None"
    "prod_meta_by_itemid demo_art ''p4'' = Some (entry None (Str ''c3''))" by code_simp+
  have p2: "transform (item_le demo_art) ''p2'' = Inr 1"
    "prod_meta_index demo_art (py_str 1) = Some (entry (Some ''p2'') (Str ''c1''))" by code_simp+
  show ?thesis
    using get_meta_never_raises [of demo_art "''zz''"] zz
      get_meta_never_raises [of demo_art "''p5''" _ _ ] p5
      get_meta_never_raises [of demo_art "''p4''" _ _ "entry None (Str ''c3'')"] p4
      get_meta_never_raises [of demo_art "''p2''" 1 "entry (Some ''p2'') (Str ''c1'')"] p2
    by simp
qed

text \<open>
  C8, as stated: the attribution of an item of the personalized filtered group is the
  string \<open>Personalized\<close>. The string written by line 254 is \<open>Personalized (ALS)\<close>,
  so the attributions of the scenario are not the list of the specification.
\<close>

theorem attribution_label_counterexample:
  "attribution [''p3'', ''p7''] [''p7'', ''p9''] [''p3'', ''p7'', ''p9'', ''p1''] \<noteq>
     [''Personalized'', ''Personalized'', ''Co-view'', ''Popular'']"
  by (simp add: attribution_def reason_def)

text \<open>
  C8, amended: for every item of the final list the attribution is
  \<open>Personalized (ALS)\<close> if the item is in the personalized filtered group, else
  \<open>Co-view\<close> if it is in the co-view filtered group, else \<open>Popular\<close>; the request
  reports these attributions for its final list; for the final list
  \<open>[p3, p7, p9, p1]\<close> with the groups of the scenario they are
  \<open>[Personalized (ALS), Personalized (ALS), Co-view, Popular]\<close>.
\<close>

theorem attribution_labels:
  "(get_recommendations art user_id_input item_id_input N = Inr r \<longrightarrow>
      out_reasons r = attribution (out_als_f r) (out_co_f r) (out_final r)) \<and>
   length (attribution als_f co_f final) = length final \<and>
   (\<forall>k<length final.
      attribution als_f co_f final ! k =
        (if final ! k \<in> set als_f then ''Personalized (ALS)''
         else if final ! k \<in> set co_f then ''Co-view''
         else ''Popular'')) \<and>
   attribution [''p3'', ''p7''] [''p7'', ''p9''] [''p3'', ''p7'', ''p9'', ''p1''] =
     [''Personalized (ALS)'', ''Personalized (ALS)'', ''Co-view'', ''Popular'']"
proof -
  have "get_recommendations art user_id_input item_id_input N = Inr r \<longrightarrow>
      out_reasons r = attribution (out_als_f r) (out_co_f r) (out_final r)"
    using get_recommendations_Inr by blast
  moreover have "attribution [''p3'', ''p7''] [''p7'', ''p9''] [''p3'', ''p7'', ''p9'', ''p1''] =
     [''Personalized (ALS)'', ''Personalized (ALS)'', ''Co-view'', ''Popular'']"
    by (simp add: attribution_def reason_def)
  ultimately show ?thesis by (simp add: attribution_def reason_def)
qed

text \<open>The request \<open>(u1, p1, 3)\<close> on the small catalogue, and position 2 of the scenario.\<close>

theorem attribution_labels_witness:
  "out_reasons \<lparr>out_als_cands = [''p3'', ''p2''], out_co_cands = [''p2'', ''p4''],
        out_pop_cands = [''p4'', ''p1'', ''p2'', ''p3'', ''p5''],
        out_als_f = [''p3'', ''p2''], out_co_f = [''p2''],
        out_pop_f = [''p1'', ''p2'', ''p3''],
        out_final = [''p3'', ''p2'', ''p1''],
        out_reasons = [''Personalized (ALS)'', ''Personalized (ALS)'', ''Popular'']\<rparr>
     = attribution [''p3'', ''p2''] [''p2''] [''p3'', ''p2'', ''p1''] \<and>
   attribution [''p3'', ''p7''] [''p7'', ''p9''] [''p3'', ''p7'', ''p9'', ''p1''] ! 2 = ''Co-view''"
proof -
  let ?r = "\<lparr>out_als_cands = [''p3'', ''p2''], out_co_cands = [''p2'', ''p4''],
        out_pop_cands = [''p4'', ''p1'', ''p2'', ''p3'', ''p5''],
        out_als_f = [''p3'', ''p2''], out_co_f = [''p2''],
        out_pop_f = [''p1'', ''p2'', ''p3''],
        out_final = [''p3'', ''p2'', ''p1''],
        out_reasons = [''Personalized (ALS)'', ''Personalized (ALS)'', ''Popular'']\<rparr>"
  have h: "get_recommendations demo_art ''u1'' ''p1'' 3 = Inr ?r" by code_simp
  have k: "(2::nat) < length [''p3'', ''p7'', ''p9'', ''p1'']" by simp
  show ?thesis
    using h k attribution_labels [of demo_art "''u1''" "''p1''" 3 ?r
        "[''p3'', ''p7'']" "[''p7'', ''p9'']" "[''p3'', ''p7'', ''p9'', ''p1'']"]
    by simp
qed

text \<open>
  C9, as stated: for every requested count \<open>N\<close> the final list can be shorter than
  \<open>N\<close> although the popularity list has codes beyond its first \<open>6 * N\<close>. For
  \<open>N = 1\<close> there is no such request: a popularity list of more than six codes gives
  at least one candidate, and the backfill appends it. So with seven codes of which the
  first six are equal, the final list of the anonymous request is \<open>[p1]\<close>.
\<close>

theorem short_result_counterexample:
  "\<not> (\<exists>art user_id_input item_id_input r.
         get_recommendations art user_id_input item_id_input 1 = Inr r \<and>
         int (length (out_final r)) < 1 \<and>
         6 * 1 < int (length (popular_items art))) \<and>
   popular_items (repeating_popular_art 1) = [0, 0, 0, 0, 0, 0, 1] \<and>
   out_final (projr (get_recommendations (repeating_popular_art 1) '''' '''' 1)) = [''p1'']"
proof -
  have "\<not> (\<exists>art user_id_input item_id_input r.
         get_recommendations art user_id_input item_id_input 1 = Inr r \<and>
         int (length (out_final r)) < 1 \<and>
         6 * 1 < int (length (popular_items art)))"
  proof
    assume "\<exists>art user_id_input item_id_input r.
         get_recommendations art user_id_input item_id_input 1 = Inr r \<and>
         int (length (out_final r)) < 1 \<and>
         6 * 1 < int (length (popular_items art))"
    then obtain art user_id_input item_id_input r where
      "get_recommendations art user_id_input item_id_input 1 = Inr r"
      "int (length (out_final r)) < 1" "6 * 1 < int (length (popular_items art))"
      by blast
    from short_needs_repeats[OF _ this] show False by simp
  qed
  moreover have "popular_items (repeating_popular_art 1) = [0, 0, 0, 0, 0, 0, 1]"
    by code_simp
  moreover have
    "out_final (projr (get_recommendations (repeating_popular_art 1) '''' '''' 1)) = [''p1'']"
    by code_simp
  ultimately show ?thesis by simp
qed

text \<open>
  C9, amended: a request with count \<open>N\<close> asks the personalized and the co-view
  generator for \<open>4 * N\<close> candidates (the co-view list is cut to that length; the
  personalized list has at most that length when the model returns no more codes than
  asked for) and translates the first \<open>6 * N\<close> codes of the popularity list; the final
  list only holds items of these three pools, and its length is the smaller of \<open>N\<close>
  and the number of distinct ids in the filtered personalized list, the filtered co-view
  list and the popularity candidates. It is shorter than \<open>N\<close> while the popularity list
  has codes beyond its first \<open>6 * N\<close> only when \<open>N\<close> is at least 2 and the popularity
  candidates repeat an item id; popularity candidates that are distinct and at least
  \<open>N\<close> always fill the list; and for every \<open>N\<close> from 2 on there is such a short
  request, with an item of the popularity list beyond the first \<open>6 * N\<close> codes that is
  not in the final list.
\<close>

theorem candidate_pools_bounded:
  assumes "1 \<le> N" and "get_recommendations art user_id_input item_id_input N = Inr r"
  shows "als_recommend art user_id_input (4 * N) = Inr (out_als_cands r) \<and>
         ((\<forall>u k cs. 0 \<le> k \<longrightarrow> model_recommend art u k = Inr cs \<longrightarrow> int (length cs) \<le> k) \<longrightarrow>
            int (length (out_als_cands r)) \<le> 4 * N) \<and>
         co_view_recommend art item_id_input (4 * N) = Inr (out_co_cands r) \<and>
         int (length (out_co_cands r)) \<le> 4 * N \<and>
         inverse_all (item_le art) (take (nat (6 * N)) (popular_items art)) = Inr (out_pop_cands r) \<and>
         int (length (out_pop_cands r)) \<le> 6 * N \<and>
         set (out_final r) \<subseteq> set (out_als_cands r) \<union> set (out_co_cands r) \<union> set (out_pop_cands r) \<and>
         int (length (out_final r)) =
           min N (int (card (set (out_als_f r) \<union> set (out_co_f r) \<union> set (out_pop_cands r)))) \<and>
         (int (length (out_final r)) < N \<and> 6 * N < int (length (popular_items art)) \<longrightarrow>
            2 \<le> N \<and> \<not> distinct (out_pop_cands r)) \<and>
         (distinct (out_pop_cands r) \<and> N \<le> int (length (out_pop_cands r)) \<longrightarrow>
            int (length (out_final r)) = N) \<and>
         (2 \<le> N \<longrightarrow>
            (\<exists>art' u' i' r' c x.
               get_recommendations art' u' i' N = Inr r' \<and>
               int (length (out_final r')) < N \<and>
               6 * N < int (length (popular_items art')) \<and>
               c \<in> set (drop (nat (6 * N)) (popular_items art')) \<and>
               inverse_transform (item_le art') c = Inr x \<and> x \<notin> set (out_final r')))"
proof -
  have n: "0 \<le> 4 * N" "0 \<le> N" using assms(1) by simp_all
  from get_recommendations_Inr[OF assms(2)] obtain al where
    a: "als_recommend art user_id_input (N * 4) = Inr (out_als_cands r)"
    and c: "co_view_recommend art item_id_input (N * 4) = Inr (out_co_cands r)"
    and p: "popular_candidates art N = Inr (out_pop_cands r)"
    and f: "filter_by_categories art (out_pop_cands r) al = Inr (out_pop_f r)"
    and m: "out_final r = merge (out_als_f r) (out_co_f r) (out_pop_f r) (out_pop_cands r) N"
    by blast
  have a': "als_recommend art user_id_input (4 * N) = Inr (out_als_cands r)"
    using a by (simp add: mult.commute)
  have c': "co_view_recommend art item_id_input (4 * N) = Inr (out_co_cands r)"
    using c by (simp add: mult.commute)
  have al: "(\<forall>u k cs. 0 \<le> k \<longrightarrow> model_recommend art u k = Inr cs \<longrightarrow> int (length cs) \<le> k) \<longrightarrow>
            int (length (out_als_cands r)) \<le> 4 * N"
    using als_recommend_length[OF n(1) _ a'] by blast
  have cl: "int (length (out_co_cands r)) \<le> 4 * N"
    by (rule co_view_recommend_length[OF n(1) c'])
  have p': "inverse_all (item_le art) (take (nat (6 * N)) (popular_items art)) = Inr (out_pop_cands r)"
    using p popular_candidates_eq[OF n(2)] by simp
  have pl: "int (length (out_pop_cands r)) \<le> 6 * N"
    using pop_pool_length[OF n(2) assms(2)] n(2) by simp
  have len: "int (length (out_final r)) =
           min N (int (card (set (out_als_f r) \<union> set (out_co_f r) \<union> set (out_pop_cands r))))"
    unfolding m by (rule merge_length_pools[OF assms(1) filter_by_categories_subset[OF f]])
  have short: "int (length (out_final r)) < N \<and> 6 * N < int (length (popular_items art)) \<longrightarrow>
            2 \<le> N \<and> \<not> distinct (out_pop_cands r)"
    using short_needs_repeats[OF assms] by blast
  have full: "distinct (out_pop_cands r) \<and> N \<le> int (length (out_pop_cands r)) \<longrightarrow>
            int (length (out_final r)) = N"
    unfolding m using merge_full[OF assms(1)] by blast
  have ex: "2 \<le> N \<longrightarrow>
            (\<exists>art' u' i' r' c x.
               get_recommendations art' u' i' N = Inr r' \<and>
               int (length (out_final r')) < N \<and>
               6 * N < int (length (popular_items art')) \<and>
               c \<in> set (drop (nat (6 * N)) (popular_items art')) \<and>
               inverse_transform (item_le art') c = Inr x \<and> x \<notin> set (out_final r'))"
    using repeating_request_short[of N] by blast
  from a' al c' cl p' pl final_subset_pools[OF assms(2)] len short full ex
  show ?thesis by blast
qed

text \<open>
  The request \<open>(u1, p1, 3)\<close> on the small catalogue, whose five popularity candidates
  are distinct, and the anonymous request with \<open>N = 2\<close> on the popularity list of
  twelve equal codes and one more.
\<close>

theorem candidate_pools_bounded_witness:
  "int (length [''p3'', ''p2'']) \<le> 4 * 3 \<and> int (length [''p2'', ''p4'']) \<le> 4 * 3 \<and>
   int (length [''p4'', ''p1'', ''p2'', ''p3'', ''p5'']) \<le> 6 * 3 \<and>
   set [''p3'', ''p2'', ''p1''] \<subseteq>
     set [''p3'', ''p2''] \<union> set [''p2'', ''p4''] \<union> set [''p4'', ''p1'', ''p2'', ''p3'', ''p5''] \<and>
   int (length [''p3'', ''p2'', ''p1'']) = 3 \<and>
   int (length [''p1'']) = min 2 (int (card (set [] \<union> set [] \<union> set (replicate 12 ''p1'')))) \<and>
   (2::int) \<le> 2 \<and> \<not> distinct (replicate 12 ''p1'')"
proof -
  let ?d = "\<lparr>out_als_cands = [''p3'', ''p2''], out_co_cands = [''p2'', ''p4''],
        out_pop_cands = [''p4'', ''p1'', ''p2'', ''p3'', ''p5''],
        out_als_f = [''p3'', ''p2''], out_co_f = [''p2''],
        out_pop_f = [''p1'', ''p2'', ''p3''],
        out_final = [''p3'', ''p2'', ''p1''],
        out_reasons = [''Personalized (ALS)'', ''Personalized (ALS)'', ''Popular'']\<rparr>"
  let ?r = "\<lparr>out_als_cands = [], out_co_cands = [],
          out_pop_cands = replicate 12 ''p1'',
          out_als_f = [], out_co_f = [],
          out_pop_f = replicate 12 ''p1'',
          out_final = [''p1''], out_reasons = [''Popular'']\<rparr>"
  have d1: "(1::int) \<le> 3" by simp
  have d2: "get_recommendations demo_art ''u1'' ''p1'' 3 = Inr ?d" by code_simp
  have d3: "\<forall>u k cs. 0 \<le> k \<longrightarrow> model_recommend demo_art u k = Inr cs \<longrightarrow> int (length cs) \<le> k"
    by (auto simp: demo_art_def py_take_def split: if_splits)
  have d4: "distinct (out_pop_cands ?d) \<and> 3 \<le> int (length (out_pop_cands ?d))" by simp
  from candidate_pools_bounded [OF d1 d2] d3 d4
  have a: "int (length (out_als_cands ?d)) \<le> 4 * 3 \<and> int (length (out_co_cands ?d)) \<le> 4 * 3 \<and>
        int (length (out_pop_cands ?d)) \<le> 6 * 3 \<and>
        set (out_final ?d) \<subseteq> set (out_als_cands ?d) \<union> set (out_co_cands ?d) \<union> set (out_pop_cands ?d) \<and>
        int (length (out_final ?d)) = 3"
    by blast
  have h1: "(1::int) \<le> 2" by simp
  have h2: "get_recommendations (repeating_popular_art 2) '''' '''' 2 = Inr ?r" by code_simp
  have h4: "int (length (out_final ?r)) < 2" by simp
  have h5: "6 * 2 < int (length (popular_items (repeating_popular_art 2)))"
    by (simp add: repeating_popular_art_def)
  from candidate_pools_bounded [OF h1 h2] h4 h5
  have b: "int (length (out_final ?r)) =
           min 2 (int (card (set (out_als_f ?r) \<union> set (out_co_f ?r) \<union> set (out_pop_cands ?r)))) \<and>
        (2::int) \<le> 2 \<and> \<not> distinct (out_pop_cands ?r)"
    by blast
  from a b show ?thesis by simp
qed

text \<open>
  C10, as stated: under an active category restriction the allowed set never contains
  the empty string, so a candidate without metadata is always filtered out. The allowed
  set also takes the related categories of the relationship map, and the loader enters
  the empty string as the related category of every row of a file that has no
  \<^verbatim>\<open>related_category\<close> column. With such a file the allowed set of the request
  \<open>(u1, p1, 5)\<close> holds the empty string, and \<open>p5\<close>, which has no metadata, is in
  the filtered popularity list.
\<close>

theorem category_restriction_counterexample:
  "allowed_categories_of one_column_art ''p1'' = Inr (Some {Str ''c1'', Str ''''}) \<and>
   category_id (projr (get_meta_by_item_id one_column_art ''p5'')) = Str '''' \<and>
   out_pop_f (projr (get_recommendations one_column_art ''u1'' ''p1'' 5)) = [''p1'', ''p2'', ''p5'']"
proof -
  have "allowed_categories_of one_column_art ''p1'' = Inr (Some {Str ''c1'', Str ''''})"
    by code_simp
  moreover have "category_id (projr (get_meta_by_item_id one_column_art ''p5'')) = Str ''''"
    by code_simp
  moreover have "out_pop_f (projr (get_recommendations one_column_art ''u1'' ''p1'' 5)) = [''p1'', ''p2'', ''p5'']"
    by code_simp
  ultimately show ?thesis by simp
qed

text \<open>
  C10, amended: under an active category restriction the \<^verbatim>\<open>category_id\<close> of the
  current item is true (a non-empty string, a number other than 0, or NaN) and the allowed
  set is that cell together with, when it is a string and a key of the relationship map,
  the related categories of the map; a number or NaN is allowed alone; the allowed set
  contains the empty string exactly when those related categories do; and when it does not,
  no candidate whose resolved \<^verbatim>\<open>category_id\<close> is the empty string is in any of the
  three filtered lists.
\<close>

theorem category_restriction:
  assumes "get_recommendations art user_id_input item_id_input N = Inr r"
    and "allowed_categories_of art item_id_input = Inr (Some allowed)"
  shows "(\<exists>ref. get_meta_by_item_id art item_id_input = Inr ref \<and>
            truthy (category_id ref) \<and> category_id ref \<noteq> Str '''' \<and>
            allowed = {category_id ref} \<union>
                      (case str_keyed_get (cat_rel_map art) (category_id ref) of
                         None \<Rightarrow> {} | Some rel \<Rightarrow> Str ` rel) \<and>
            ((\<forall>s. category_id ref \<noteq> Str s) \<longrightarrow> allowed = {category_id ref}) \<and>
            (Str '''' \<in> allowed \<longleftrightarrow>
               (\<exists>s rel. category_id ref = Str s \<and> cat_rel_map art s = Some rel \<and> '''' \<in> rel))) \<and>
         (Str '''' \<notin> allowed \<and> get_meta_by_item_id art it = Inr m \<and> category_id m = Str '''' \<longrightarrow>
            it \<notin> set (out_als_f r) \<union> set (out_co_f r) \<union> set (out_pop_f r))"
proof
  from assms(2) obtain ref where r: "get_meta_by_item_id art item_id_input = Inr ref"
    and t: "truthy (category_id ref)"
    and a: "allowed = {category_id ref} \<union>
                      (case str_keyed_get (cat_rel_map art) (category_id ref) of
                         None \<Rightarrow> {} | Some rel \<Rightarrow> Str ` rel)"
    by (auto simp: allowed_categories_of_def bind_exc_def Let_def split: if_splits sum.splits)
  from t have c: "category_id ref \<noteq> Str ''''" by (auto simp: truthy_def)
  have n: "(\<forall>s. category_id ref \<noteq> Str s) \<longrightarrow> allowed = {category_id ref}"
    unfolding a by (cases "category_id ref") (simp_all add: str_keyed_get_def)
  have e: "Str '''' \<in> allowed \<longleftrightarrow>
             (\<exists>s rel. category_id ref = Str s \<and> cat_rel_map art s = Some rel \<and> '''' \<in> rel)"
    using c unfolding a
    by (cases "category_id ref") (auto simp: str_keyed_get_def split: option.splits)
  from r t c a n e
  show "\<exists>ref. get_meta_by_item_id art item_id_input = Inr ref \<and>
            truthy (category_id ref) \<and> category_id ref \<noteq> Str '''' \<and>
            allowed = {category_id ref} \<union>
                      (case str_keyed_get (cat_rel_map art) (category_id ref) of
                         None \<Rightarrow> {} | Some rel \<Rightarrow> Str ` rel) \<and>
            ((\<forall>s. category_id ref \<noteq> Str s) \<longrightarrow> allowed = {category_id ref}) \<and>
            (Str '''' \<in> allowed \<longleftrightarrow>
               (\<exists>s rel. category_id ref = Str s \<and> cat_rel_map art s = Some rel \<and> '''' \<in> rel))"
    by blast
next
  from get_recommendations_Inr[OF assms(1)] assms(2)
  have f: "filter_by_categories art (out_als_cands r) (Some allowed) = Inr (out_als_f r)"
       "filter_by_categories art (out_co_cands r) (Some allowed) = Inr (out_co_f r)"
       "filter_by_categories art (out_pop_cands r) (Some allowed) = Inr (out_pop_f r)"
    by auto
  show "Str '''' \<notin> allowed \<and> get_meta_by_item_id art it = Inr m \<and> category_id m = Str '''' \<longrightarrow>
            it \<notin> set (out_als_f r) \<union> set (out_co_f r) \<union> set (out_pop_f r)"
    using f[THEN filter_by_categories_member, of it] by auto
qed

text \<open>The request \<open>(u1, p1, 3)\<close> on the small catalogue, where \<open>p5\<close> has no metadata.\<close>

theorem category_restriction_witness:
  "''p5'' \<notin> set [''p3'', ''p2''] \<union> set [''p2''] \<union> set [''p1'', ''p2'', ''p3''] \<and>
   (\<exists>ref. get_meta_by_item_id demo_art ''p1'' = Inr ref \<and> truthy (category_id ref) \<and>
      {Str ''c1'', Str ''c2''} = {category_id ref} \<union>
         (case str_keyed_get (cat_rel_map demo_art) (category_id ref) of
            None \<Rightarrow> {} | Some rel \<Rightarrow> Str ` rel))"
proof -
  let ?r = "\<lparr>out_als_cands = [''p3'', ''p2''], out_co_cands = [''p2'', ''p4''],
        out_pop_cands = [''p4'', ''p1'', ''p2'', ''p3'', ''p5''],
        out_als_f = [''p3'', ''p2''], out_co_f = [''p2''],
        out_pop_f = [''p1'', ''p2'', ''p3''],
        out_final = [''p3'', ''p2'', ''p1''],
        out_reasons = [''Personalized (ALS)'', ''Personalized (ALS)'', ''Popular'']\<rparr>"
  have h1: "get_recommendations demo_art ''u1'' ''p1'' 3 = Inr ?r" by code_simp
  have h2: "allowed_categories_of demo_art ''p1'' = Inr (Some {Str ''c1'', Str ''c2''})" by code_simp
  have h3: "Str '''' \<notin> {Str ''c1'', Str ''c2''}" by simp
  have h4: "get_meta_by_item_id demo_art ''p5'' = Inr empty_meta" by code_simp
  have h5: "category_id empty_meta = Str ''''" by (simp add: empty_meta_def)
  from category_restriction [OF h1 h2, of "''p5''" empty_meta] h3 h4 h5
  have "''p5'' \<notin> set (out_als_f ?r) \<union> set (out_co_f ?r) \<union> set (out_pop_f ?r)"
    and "\<exists>ref. get_meta_by_item_id demo_art ''p1'' = Inr ref \<and> truthy (category_id ref) \<and>
      {Str ''c1'', Str ''c2''} = {category_id ref} \<union>
         (case str_keyed_get (cat_rel_map demo_art) (category_id ref) of
            None \<Rightarrow> {} | Some rel \<Rightarrow> Str ` rel)"
    by blast+
  then show ?thesis by simp
qed

end
